theory Spec2Isabelle
  imports Main "HOL-Library.Word"
begin

section \<open>Data model of \<^verbatim>\<open>MyLD2410.h\<close>\<close>

text \<open>
  Arduino's \<^verbatim>\<open>byte\<close> is an unsigned 8-bit integer and \<^verbatim>\<open>unsigned long\<close> is an
  unsigned 32-bit integer on the boards the library targets; both wrap around.
\<close>

type_synonym byte = "8 word"
type_synonym ulong = "32 word"

text \<open>
  \<^verbatim>\<open>enum Response { FAIL = 0, ACK, DATA };\<close>
  An enumerator without an initialiser has the value of the previous one plus one.
\<close>

datatype Response = FAIL | ACK | DATA

fun Response_value :: "Response \<Rightarrow> int" where
  "Response_value FAIL = 0"
| "Response_value ACK = 0 + 1"
| "Response_value DATA = 0 + 1 + 1"

text \<open>The contextual conversion of an enumeration value to \<^verbatim>\<open>bool\<close>: nonzero is true.\<close>

definition Response_bool :: "Response \<Rightarrow> bool" where
  "Response_bool r = (Response_value r \<noteq> 0)"

text \<open>
  \<^verbatim>\<open>struct ValuesArray { byte values[9]; byte N; ... };\<close>
  The backing storage is a list; a well-formed object has exactly 9 slots.
\<close>

record ValuesArray =
  "values" :: "byte list"
  N :: byte

definition capacity :: nat where
  "capacity = 9"

text \<open>
  An index at or beyond the 9 slots of \<^verbatim>\<open>values\<close> is outside the array; the
  model reports it instead of reading or writing there.
\<close>

datatype error = OutOfBounds

text \<open>
  The loop of \<^verbatim>\<open>operator=\<close>, entered after \<^verbatim>\<open>N = other.N\<close>:
  \<^verbatim>\<open>for (byte i = 0; i < N; i++) values[i] = other.values[i];\<close>
  The counter is a byte; \<^verbatim>\<open>this\<close> and \<^verbatim>\<open>other\<close> are distinct objects here.
\<close>

function copy_loop :: "byte \<Rightarrow> ValuesArray \<Rightarrow> ValuesArray \<Rightarrow> error + ValuesArray" where
  "copy_loop i this other =
     (if i < N this then
        (if unat i < capacity then
           copy_loop (i + 1) (this\<lparr>values := (values this)[unat i := values other ! unat i]\<rparr>) other
         else Inl OutOfBounds)
      else Inr this)"
  by pat_completeness auto
termination
proof (relation "measure (\<lambda>(i, this, other). unat (N this) - unat i)")
  show "wf (measure (\<lambda>(i, this, other). unat (N this) - unat i))"
    by simp
next
  fix i :: byte and this other :: ValuesArray
  assume lt: "i < N this"
  then have below: "unat i < unat (N this)"
    by (simp add: word_less_nat_alt)
  moreover have "unat (N this) < 2 ^ 8"
    using unsigned_less [of "N this", where ?'a = nat] by simp
  ultimately have "unat i + unat (1 :: byte) < 2 ^ LENGTH(8)"
    by simp
  then have "unat (i + 1) = unat i + unat (1 :: byte)"
    by (simp only: unat_add_lem)
  with below show "((i + 1, this\<lparr>values := (values this)[unat i := values other ! unat i]\<rparr>, other),
      (i, this, other)) \<in> measure (\<lambda>(i, this, other). unat (N this) - unat i)"
    by simp
qed

declare copy_loop.simps [simp del]

text \<open>The body of the guarded branch of \<^verbatim>\<open>operator=\<close>.\<close>

definition assign_from :: "ValuesArray \<Rightarrow> ValuesArray \<Rightarrow> error + ValuesArray" where
  "assign_from this other = copy_loop 0 (this\<lparr>N := N other\<rparr>) other"

text \<open>
  Objects live in a store, so that \<^verbatim>\<open>this != &other\<close> is a comparison of
  addresses. \<^verbatim>\<open>operator=\<close> returns \<^verbatim>\<open>*this\<close>: the address it was called on.
\<close>

type_synonym addr = nat
type_synonym store = "addr \<Rightarrow> ValuesArray"

definition operator_assign :: "store \<Rightarrow> addr \<Rightarrow> addr \<Rightarrow> error + (store \<times> addr)" where
  "operator_assign h this other =
     (if this \<noteq> other then
        (case assign_from (h this) (h other) of
           Inl e \<Rightarrow> Inl e
         | Inr a \<Rightarrow> Inr (h(this := a), this))
      else Inr (h, this))"

text \<open>
  \<^verbatim>\<open>void forEach(void (*func)(const byte &val)) const\<close>:
  \<^verbatim>\<open>for (byte i = 0; i < N; i++) func(values[i]);\<close>
  The callback returns nothing; what it does is an effect on a state of the caller.
\<close>

function forEach_loop :: "byte \<Rightarrow> (byte \<Rightarrow> 's \<Rightarrow> 's) \<Rightarrow> ValuesArray \<Rightarrow> 's \<Rightarrow> error + 's" where
  "forEach_loop i func a s =
     (if i < N a then
        (if unat i < capacity then forEach_loop (i + 1) func a (func (values a ! unat i) s)
         else Inl OutOfBounds)
      else Inr s)"
  by pat_completeness auto
termination
proof (relation "measure (\<lambda>(i, func, a, s). unat (N a) - unat i)")
  show "wf (measure (\<lambda>(i, func, a, s). unat (N a) - unat i))"
    by simp
next
  fix i :: byte and func :: "byte \<Rightarrow> 's \<Rightarrow> 's" and a :: ValuesArray and s :: 's
  assume lt: "i < N a"
  then have below: "unat i < unat (N a)"
    by (simp add: word_less_nat_alt)
  moreover have "unat (N a) < 2 ^ 8"
    using unsigned_less [of "N a", where ?'a = nat] by simp
  ultimately have "unat i + unat (1 :: byte) < 2 ^ LENGTH(8)"
    by simp
  then have "unat (i + 1) = unat i + unat (1 :: byte)"
    by (simp only: unat_add_lem)
  with below show "((i + 1, func, a, func (values a ! unat i) s), (i, func, a, s))
      \<in> measure (\<lambda>(i, func, a, s). unat (N a) - unat i)"
    by simp
qed

declare forEach_loop.simps [simp del]

definition forEach :: "(byte \<Rightarrow> 's \<Rightarrow> 's) \<Rightarrow> ValuesArray \<Rightarrow> 's \<Rightarrow> error + 's" where
  "forEach func a s = forEach_loop 0 func a s"

text \<open>
  The spec's invariant of a ValuesArray: the count does not exceed the capacity. The
  type of \<^verbatim>\<open>N\<close> alone allows any byte. The logical contents are the first
  \<^verbatim>\<open>N\<close> slots.
\<close>

definition has_storage :: "ValuesArray \<Rightarrow> bool" where
  "has_storage a = (length (values a) = capacity)"

definition ValuesArray_inv :: "ValuesArray \<Rightarrow> bool" where
  "ValuesArray_inv a = (has_storage a \<and> N a \<le> 9)"

definition contents :: "ValuesArray \<Rightarrow> byte list" where
  "contents a = take (unat (N a)) (values a)"

text \<open>A callback that appends each value it is called with to a log of the calls.\<close>

definition record_call :: "byte \<Rightarrow> byte list \<Rightarrow> byte list" where
  "record_call val calls = calls @ [val]"

text \<open>
  \<^verbatim>\<open>struct SensorData\<close>, field by field.
\<close>

record SensorData =
  status :: byte
  timestamp :: ulong
  mTargetDistance :: ulong
  mTargetSignal :: byte
  sTargetDistance :: ulong
  sTargetSignal :: byte
  distance :: ulong
  mTargetSignals :: ValuesArray
  sTargetSignals :: ValuesArray

text \<open>\<^verbatim>\<open>byte MAC[6];\<close> An array of exactly six bytes.\<close>

typedef MAC_array = "{xs :: byte list. length xs = 6}"
  by (rule exI [of _ "replicate 6 0"]) simp

text \<open>
  The private members of \<^verbatim>\<open>class MyLD2410\<close>, in the order of the header.
  \<^verbatim>\<open>Stream *sensor\<close> is an address; \<^verbatim>\<open>_debug\<close> is written \<open>debug\<close>.
\<close>

record MyLD2410 =
  sData :: SensorData
  stationaryThresholds :: ValuesArray
  movingThresholds :: ValuesArray
  maxRange :: byte
  noOne_window :: byte
  version :: ulong
  bufferSize :: ulong
  MAC :: MAC_array
  MACstr :: string
  firmware :: string
  fineRes :: int
  isEnhanced :: bool
  isConfig :: bool
  timeout :: ulong
  dataLifespan :: ulong
  inBuf :: "byte list"
  inBufI :: byte
  headBuf :: "byte list"
  headBufI :: byte
  sensor :: addr
  debug :: bool

text \<open>
  The default member initialisers of the class, applied to the raw storage of a new
  object: members declared without an initialiser (\<^verbatim>\<open>sData\<close>, the two threshold
  arrays, \<^verbatim>\<open>MAC\<close>, \<^verbatim>\<open>inBuf\<close>, \<^verbatim>\<open>headBuf\<close>, \<^verbatim>\<open>sensor\<close>) keep what the
  storage holds.
\<close>

definition member_defaults :: "MyLD2410 \<Rightarrow> MyLD2410" where
  "member_defaults raw =
     raw\<lparr>maxRange := 0, noOne_window := 0, version := 0, bufferSize := 0,
         MACstr := [], firmware := [], fineRes := - 1,
         isEnhanced := False, isConfig := False,
         timeout := 2000, dataLifespan := 500,
         inBufI := 0, headBufI := 0, debug := False\<rparr>"

subsection \<open>Members declared in the header whose bodies are in the implementation file\<close>

text \<open>
  Modelled from the spec: \<^verbatim>\<open>isDataValid\<close>, declared in \<^verbatim>\<open>MyLD2410.h\<close>; its body is
  not in the header. Section 4.4: the accessors consult
  \<^verbatim>\<open>(now - SensorData.timestamp) < dataLifespan\<close>. \<^verbatim>\<open>now\<close> is the clock reading
  at the query; the subtraction is that of \<^verbatim>\<open>unsigned long\<close>.
\<close>

definition isDataValid :: "ulong \<Rightarrow> MyLD2410 \<Rightarrow> bool" where
  "isDataValid now d = (now - timestamp (sData d) < dataLifespan d)"

text \<open>
  Modelled from the spec: the detection queries \<^verbatim>\<open>presenceDetected\<close>,
  \<^verbatim>\<open>movingTargetDetected\<close> and \<^verbatim>\<open>stationaryTargetDetected\<close>, declared in the
  header without bodies. Section 4.4: a query consults the staleness test before
  returning a detected state, and reports not detected once the snapshot is stale,
  regardless of the stored flags. The spec does not fix which bits of the status byte
  are the moving and the stationary flag, so the reading of the flags is the
  parameter \<open>flagged\<close>; each of the three queries is an instance.
\<close>

definition detection_query :: "(byte \<Rightarrow> bool) \<Rightarrow> ulong \<Rightarrow> MyLD2410 \<Rightarrow> bool" where
  "detection_query flagged now d = (isDataValid now d \<and> flagged (status (sData d)))"

text \<open>
  Modelled from the spec: the end of a successful telemetry decode
  (\<^verbatim>\<open>processData\<close>, declared without body). Section 4.3: the snapshot is replaced as
  a whole and its timestamp is set to the time of receipt.
\<close>

definition store_telemetry :: "ulong \<Rightarrow> SensorData \<Rightarrow> MyLD2410 \<Rightarrow> MyLD2410" where
  "store_telemetry now decoded d = d\<lparr>sData := decoded\<lparr>timestamp := now\<rparr>\<rparr>"

text \<open>
  Modelled from the spec: the wait of \<^verbatim>\<open>sendCommand\<close> for the acknowledgement
  (declared without body). Sections 4.2 and 5: after writing the command the driver
  repeatedly reads the transport and re-checks the elapsed time; the wait ends with
  (a) a command frame whose code matches the request: success; (d) the elapsed wait
  exceeding \<^verbatim>\<open>timeout\<close>: Timeout; (b) other command frames and (c) telemetry frames
  let it continue. A poll is a clock reading with what the framer emitted then; the
  result \<open>None\<close> says that the wait has not ended within the polls given.
  Which code acknowledges which request is the parameter \<open>acks\<close>.
\<close>

datatype FrameEvent = NoFrame | CommandFrame "16 word" | TelemetryFrame

datatype WaitResult = Acked | Timeout

fun matching_ack :: "(16 word \<Rightarrow> 16 word \<Rightarrow> bool) \<Rightarrow> 16 word \<Rightarrow> FrameEvent \<Rightarrow> bool" where
  "matching_ack acks req (CommandFrame code) = acks req code"
| "matching_ack acks req NoFrame = False"
| "matching_ack acks req TelemetryFrame = False"

fun await_ack ::
  "(16 word \<Rightarrow> 16 word \<Rightarrow> bool) \<Rightarrow> ulong \<Rightarrow> ulong \<Rightarrow> 16 word \<Rightarrow> (ulong \<times> FrameEvent) list
    \<Rightarrow> WaitResult option" where
  "await_ack acks tmo start req [] = None"
| "await_ack acks tmo start req ((now, ev) # polls) =
     (if tmo < now - start then Some Timeout
      else if matching_ack acks req ev then Some Acked
      else await_ack acks tmo start req polls)"

text \<open>The \<^verbatim>\<open>bool\<close> that \<^verbatim>\<open>sendCommand\<close> returns: true on success only.\<close>

fun WaitResult_bool :: "WaitResult \<Rightarrow> bool" where
  "WaitResult_bool Acked = True"
| "WaitResult_bool Timeout = False"

text \<open>
  Modelled from the spec: \<^verbatim>\<open>getMAC\<close>, declared in the header as returning
  \<^verbatim>\<open>const byte *\<close> with the comment "Get the Bluetooth MAC address as an array
  byte[6]"; its body is not in the header. The pointer is modelled by the array it
  points to.
\<close>

definition getMAC :: "MyLD2410 \<Rightarrow> MAC_array" where
  "getMAC d = MAC d"

subsection \<open>Concrete objects for the examples\<close>

text \<open>
  A store with a full array at address 0 and an array of count 2 at address 1, and
  the object at address 0 after the array at address 1 has been assigned to it.
\<close>

definition demo_store :: store where
  "demo_store = (\<lambda>p. \<lparr>values = replicate 9 0, N = 0\<rparr>)
     (0 := \<lparr>values = [1, 2, 3, 4, 5, 6, 7, 8, 9], N = 9\<rparr>,
      1 := \<lparr>values = [10, 20, 30, 40, 50, 60, 70, 80, 90], N = 2\<rparr>)"

definition demo_after :: ValuesArray where
  "demo_after = \<lparr>values = [10, 20, 3, 4, 5, 6, 7, 8, 9], N = 2\<rparr>"

definition demo_array :: ValuesArray where
  "demo_array = \<lparr>values = [10, 20, 30, 40, 50, 60, 70, 80, 90], N = 9\<rparr>"

text \<open>
  A device object after member initialisation, holding a snapshot with a detected
  target that was received 296 ms before the 32-bit clock wraps around.
\<close>

definition demo_device :: MyLD2410 where
  "demo_device = member_defaults
     \<lparr>sData = \<lparr>status = 1, timestamp = 4294967000, mTargetDistance = 150, mTargetSignal = 80,
         sTargetDistance = 0, sTargetSignal = 0, distance = 150,
         mTargetSignals = demo_array, sTargetSignals = demo_array\<rparr>,
       stationaryThresholds = demo_array, movingThresholds = demo_array,
       maxRange = 7, noOne_window = 7, version = 7, bufferSize = 7,
       MAC = Abs_MAC_array [1, 2, 3, 4, 5, 6], MACstr = ''x'', firmware = ''x'', fineRes = 7,
       isEnhanced = True, isConfig = True, timeout = 7, dataLifespan = 7,
       inBuf = replicate 64 0, inBufI = 7, headBuf = replicate 4 0, headBufI = 7,
       sensor = 0, debug = True\<rparr>"

definition status_nonzero :: "byte \<Rightarrow> bool" where
  "status_nonzero s = (s \<noteq> 0)"

text \<open>
  An acknowledgement convention (the request code plus 256) and a run of polls
  of a wait that started at clock reading 4294967000, none of them a matching
  acknowledgement of request 255.
\<close>

definition ack_bit :: "16 word \<Rightarrow> 16 word \<Rightarrow> bool" where
  "ack_bit req code = (code = req + 256)"

definition demo_polls :: "(ulong \<times> FrameEvent) list" where
  "demo_polls =
     [(4294967290, NoFrame), (700, TelemetryFrame), (1500, CommandFrame 7), (1700, NoFrame),
      (2500, NoFrame)]"

section \<open>Properties of the loops\<close>

text \<open>A byte counter below some bound does not wrap when it is incremented.\<close>

lemma byte_succ:
  fixes i n :: byte
  assumes lt: "i < n"
  shows "unat (i + 1) = Suc (unat i)"
proof -
  from lt have "unat i < unat n"
    by (simp add: word_less_nat_alt)
  moreover have "unat n < 2 ^ 8"
    using unsigned_less [of n, where ?'a = nat] by simp
  ultimately have "unat i + unat (1 :: byte) < 2 ^ LENGTH(8)"
    by simp
  then have "unat (i + 1) = unat i + unat (1 :: byte)"
    by (simp only: unat_add_lem)
  then show ?thesis
    by simp
qed

lemma copy_loop_ok:
  assumes "length (values this) = capacity" and "unat (N this) \<le> capacity"
  shows "\<exists>r. copy_loop i this other = Inr r \<and> N r = N this \<and> length (values r) = capacity \<and>
     (\<forall>k. values r ! k = (if unat i \<le> k \<and> k < unat (N this) then values other ! k else values this ! k))"
  using assms
proof (induction i this other rule: copy_loop.induct)
  case (1 i this other)
  show ?case
  proof (cases "i < N this")
    case False
    then have "unat (N this) \<le> unat i" by (simp add: word_less_nat_alt)
    with False show ?thesis
      using "1.prems" by (subst copy_loop.simps) auto
  next
    case True
    then have lt: "unat i < unat (N this)" by (simp add: word_less_nat_alt)
    with "1.prems" have cap: "unat i < capacity" by simp
    let ?t = "this\<lparr>values := (values this)[unat i := values other ! unat i]\<rparr>"
    from "1.IH" [OF True cap] "1.prems"
    obtain r where r: "copy_loop (i + 1) ?t other = Inr r" "N r = N ?t" "length (values r) = capacity"
      "\<forall>k. values r ! k = (if unat (i + 1) \<le> k \<and> k < unat (N ?t) then values other ! k else values ?t ! k)"
      by auto
    have step: "copy_loop i this other = Inr r"
      using True cap r(1) by (subst copy_loop.simps) simp
    have suc: "unat (i + 1) = Suc (unat i)" using True by (rule byte_succ)
    have "values r ! k = (if unat i \<le> k \<and> k < unat (N this) then values other ! k else values this ! k)" for k
    proof (cases "k = unat i")
      case True
      with r(4) suc lt cap "1.prems" show ?thesis by simp
    next
      case False
      with r(4) suc show ?thesis by auto
    qed
    with step r(2,3) show ?thesis by simp
  qed
qed

lemma inv_unat: "ValuesArray_inv a \<Longrightarrow> unat (N a) \<le> capacity"
  by (simp add: ValuesArray_inv_def word_le_nat_alt capacity_def)

lemma forEach_loop_fold:
  assumes "length (values a) = capacity" and "unat (N a) \<le> capacity"
  shows "forEach_loop i func a s = Inr (fold func (map (\<lambda>k. values a ! k) [unat i..<unat (N a)]) s)"
  using assms
proof (induction i func a s rule: forEach_loop.induct)
  case (1 i func a s)
  show ?case
  proof (cases "i < N a")
    case False
    then have "unat (N a) \<le> unat i" by (simp add: word_less_nat_alt)
    with False show ?thesis
      by (subst forEach_loop.simps) simp
  next
    case True
    then have lt: "unat i < unat (N a)" by (simp add: word_less_nat_alt)
    with "1.prems" have cap: "unat i < capacity" by simp
    have suc: "unat (i + 1) = Suc (unat i)" using True by (rule byte_succ)
    have "forEach_loop i func a s = forEach_loop (i + 1) func a (func (values a ! unat i) s)"
      using True cap by (subst forEach_loop.simps) simp
    also have "\<dots> = Inr (fold func (map (\<lambda>k. values a ! k) [unat (i + 1)..<unat (N a)]) (func (values a ! unat i) s))"
      using "1.IH" [OF True cap] "1.prems" by simp
    also have "\<dots> = Inr (fold func (map (\<lambda>k. values a ! k) [unat i..<unat (N a)]) s)"
      using lt suc by (simp add: upt_conv_Cons)
    finally show ?thesis .
  qed
qed

lemma forEach_contents:
  assumes "ValuesArray_inv a"
  shows "forEach func a s = Inr (fold func (contents a) s)"
proof -
  from assms have len: "length (values a) = capacity" and n: "unat (N a) \<le> capacity"
    by (simp_all add: ValuesArray_inv_def has_storage_def inv_unat)
  have "map (\<lambda>k. values a ! k) [0..<unat (N a)] = take (unat (N a)) (values a)"
    using len n by (intro nth_equalityI) simp_all
  then show ?thesis
    using forEach_loop_fold [OF len n, of 0 func s] by (simp add: forEach_def contents_def)
qed

lemma fold_record_call: "fold record_call xs calls = calls @ xs"
  by (induction xs arbitrary: calls) (simp_all add: record_call_def)

lemma length_contents: "ValuesArray_inv a \<Longrightarrow> length (contents a) = unat (N a)"
  using inv_unat [of a] by (simp add: contents_def ValuesArray_inv_def has_storage_def)

lemma assign_from_ok:
  assumes "has_storage a" and "ValuesArray_inv b"
  shows "\<exists>r. assign_from a b = Inr r \<and> N r = N b \<and> has_storage r \<and>
     (\<forall>k. values r ! k = (if k < unat (N b) then values b ! k else values a ! k))"
proof -
  have "length (values (a\<lparr>N := N b\<rparr>)) = capacity" "unat (N (a\<lparr>N := N b\<rparr>)) \<le> capacity"
    using assms by (simp_all add: has_storage_def inv_unat)
  from copy_loop_ok [OF this, of 0 b] obtain r where
    "copy_loop 0 (a\<lparr>N := N b\<rparr>) b = Inr r" "N r = N b" "length (values r) = capacity"
    "\<forall>k. values r ! k = (if k < unat (N b) then values b ! k else values a ! k)"
    by auto
  then show ?thesis
    by (simp add: assign_from_def has_storage_def)
qed

lemma operator_assign_distinct:
  assumes "this \<noteq> other" and "has_storage (h this)" and "ValuesArray_inv (h other)"
  shows "\<exists>r. operator_assign h this other = Inr (h(this := r), this) \<and> N r = N (h other) \<and>
     has_storage r \<and>
     (\<forall>k. values r ! k = (if k < unat (N (h other)) then values (h other) ! k else values (h this) ! k))"
proof -
  from assign_from_ok [OF assms(2,3)] obtain r where
    r: "assign_from (h this) (h other) = Inr r" "N r = N (h other)" "has_storage r"
      "\<forall>k. values r ! k = (if k < unat (N (h other)) then values (h other) ! k else values (h this) ! k)"
    by blast
  have "operator_assign h this other = Inr (h(this := r), this)"
    using assms(1) r(1) by (simp add: operator_assign_def)
  with r(2,3,4) show ?thesis
    by blast
qed

lemma contents_cong:
  assumes "N a = N b" and "has_storage a" and "ValuesArray_inv b"
    and "\<forall>k. k < unat (N b) \<longrightarrow> values a ! k = values b ! k"
  shows "contents a = contents b"
proof -
  from assms(2,3) have "length (values a) = capacity" "length (values b) = capacity"
    "unat (N b) \<le> capacity"
    by (simp_all add: has_storage_def ValuesArray_inv_def inv_unat)
  with assms(1,4) show ?thesis
    unfolding contents_def by (intro nth_equalityI) simp_all
qed

text \<open>
  A count above the capacity is outside the invariant: there both loops index beyond
  the nine slots, which the model reports.
\<close>

lemma assign_from_beyond_capacity:
  "assign_from demo_array (demo_array\<lparr>N := 10\<rparr>) = Inl OutOfBounds"
  by (simp add: assign_from_def copy_loop.simps demo_array_def capacity_def)

lemma forEach_beyond_capacity:
  "forEach record_call (demo_array\<lparr>N := 10\<rparr>) [] = Inl OutOfBounds"
  by (simp add: forEach_def forEach_loop.simps demo_array_def capacity_def)

section \<open>Assignment of a ValuesArray\<close>

text \<open>
  C1. Assigning the object at \<open>other\<close> to a different object at \<open>this\<close> copies
  exactly \<open>N\<close> elements, where \<open>N\<close> is the count of \<open>other\<close> (at most 9): afterwards
  the count of \<open>this\<close> is \<open>N\<close> and its slots below \<open>N\<close> hold the elements of
  \<open>other\<close>. The backing storage is not copied as a whole: every slot from index \<open>N\<close>
  up to the capacity keeps what \<open>this\<close> held before; nine slots are written only
  when the count itself is 9. No other object changes, and the operator returns
  \<open>this\<close>.
\<close>

theorem assign_copies_exactly_N:
  assumes "this \<noteq> other" and "has_storage (h this)" and "ValuesArray_inv (h other)"
  shows "\<exists>h'. operator_assign h this other = Inr (h', this) \<and>
     N (h' this) = N (h other) \<and>
     (\<forall>i. i < unat (N (h other)) \<longrightarrow> values (h' this) ! i = values (h other) ! i) \<and>
     (\<forall>i. unat (N (h other)) \<le> i \<and> i < capacity \<longrightarrow> values (h' this) ! i = values (h this) ! i) \<and>
     length (values (h' this)) = capacity \<and>
     (\<forall>p. p \<noteq> this \<longrightarrow> h' p = h p)"
proof -
  from operator_assign_distinct [OF assms] obtain r where
    r: "operator_assign h this other = Inr (h(this := r), this)" "N r = N (h other)" "has_storage r"
      "\<forall>k. values r ! k = (if k < unat (N (h other)) then values (h other) ! k else values (h this) ! k)"
    by blast
  then show ?thesis
    by (simp add: has_storage_def)
qed

theorem assign_copies_exactly_N_witness:
  "(0 :: addr) \<noteq> 1 \<and> has_storage (demo_store 0) \<and> ValuesArray_inv (demo_store 1) \<and>
   (\<exists>h'. operator_assign demo_store 0 1 = Inr (h', 0) \<and>
     N (h' 0) = N (demo_store 1) \<and>
     (\<forall>i. i < unat (N (demo_store 1)) \<longrightarrow> values (h' 0) ! i = values (demo_store 1) ! i) \<and>
     (\<forall>i. unat (N (demo_store 1)) \<le> i \<and> i < capacity \<longrightarrow> values (h' 0) ! i = values (demo_store 0) ! i) \<and>
     length (values (h' 0)) = capacity \<and>
     (\<forall>p. p \<noteq> 0 \<longrightarrow> h' p = demo_store p))"
proof -
  have h1: "(0 :: addr) \<noteq> 1" by simp
  have h2: "has_storage (demo_store 0)"
    by (simp add: has_storage_def demo_store_def capacity_def)
  have h3: "ValuesArray_inv (demo_store 1)"
    by (simp add: ValuesArray_inv_def has_storage_def demo_store_def capacity_def)
  from assign_copies_exactly_N [OF h1 h2 h3] h1 h2 h3 show ?thesis
    by blast
qed

text \<open>
  C2, as stated, fails. With a count of 9 in the holder at address 0 and a count of 2
  in the source at address 1, the assignment leaves slot 5 of the holder, which lies
  beyond the new count, with the element that the holder stored there before.
\<close>

theorem assign_keeps_slots_beyond_N_counterexample:
  "N (demo_store 1) < N (demo_store 0) \<and>
   operator_assign demo_store 0 1 = Inr (demo_store(0 := demo_after), 0) \<and>
   unat (N (demo_store 1)) \<le> 5 \<and> 5 < capacity \<and>
   values demo_after ! 5 = values (demo_store 0) ! 5"
  by (simp add: operator_assign_def assign_from_def copy_loop.simps demo_store_def demo_after_def
      capacity_def)

text \<open>
  C2, amended. Assigning an array of smaller count to a holder of larger count sets
  the holder's count to the smaller one and copies that many elements, so that the
  contents of the holder (its first \<open>N\<close> slots) are those of the source and
  \<^verbatim>\<open>forEach\<close> on the holder visits exactly what it visits on the source. The slots
  of the holder from the new count up to the capacity keep the bytes stored there
  before; they lie beyond the count.
\<close>

theorem assign_smaller_into_larger:
  assumes "this \<noteq> other" and "has_storage (h this)" and "ValuesArray_inv (h other)"
    and "N (h other) < N (h this)"
  shows "\<exists>h'. operator_assign h this other = Inr (h', this) \<and>
     N (h' this) = N (h other) \<and>
     contents (h' this) = contents (h other) \<and>
     forEach func (h' this) s = forEach func (h other) s \<and>
     (\<forall>i. unat (N (h other)) \<le> i \<and> i < capacity \<longrightarrow> values (h' this) ! i = values (h this) ! i)"
proof -
  from operator_assign_distinct [OF assms(1,2,3)] obtain r where
    r: "operator_assign h this other = Inr (h(this := r), this)" "N r = N (h other)" "has_storage r"
      "\<forall>k. values r ! k = (if k < unat (N (h other)) then values (h other) ! k else values (h this) ! k)"
    by blast
  from r(4) have same: "\<forall>k. k < unat (N (h other)) \<longrightarrow> values r ! k = values (h other) ! k"
    by simp
  have c: "contents r = contents (h other)"
    using r(2,3) assms(3) same by (rule contents_cong)
  have "ValuesArray_inv r"
    using r(2,3) assms(3) by (simp add: ValuesArray_inv_def)
  then have "forEach func r s = forEach func (h other) s"
    using assms(3) c by (simp add: forEach_contents)
  with r c show ?thesis
    by simp
qed

theorem assign_smaller_into_larger_witness:
  "(0 :: addr) \<noteq> 1 \<and> has_storage (demo_store 0) \<and> ValuesArray_inv (demo_store 1) \<and>
   N (demo_store 1) < N (demo_store 0) \<and>
   (\<exists>h'. operator_assign demo_store 0 1 = Inr (h', 0) \<and>
     N (h' 0) = N (demo_store 1) \<and>
     contents (h' 0) = contents (demo_store 1) \<and>
     forEach record_call (h' 0) [] = forEach record_call (demo_store 1) [] \<and>
     (\<forall>i. unat (N (demo_store 1)) \<le> i \<and> i < capacity \<longrightarrow> values (h' 0) ! i = values (demo_store 0) ! i))"
proof -
  have h1: "(0 :: addr) \<noteq> 1" by simp
  have h2: "has_storage (demo_store 0)"
    by (simp add: has_storage_def demo_store_def capacity_def)
  have h3: "ValuesArray_inv (demo_store 1)"
    by (simp add: ValuesArray_inv_def has_storage_def demo_store_def capacity_def)
  have h4: "N (demo_store 1) < N (demo_store 0)"
    by (simp add: demo_store_def)
  from assign_smaller_into_larger [OF h1 h2 h3 h4, of record_call "[]"] h1 h2 h3 h4 show ?thesis
    by blast
qed

text \<open>
  C4. The contents of a ValuesArray are an ordered sequence of at most 9 bytes with
  the explicit count \<open>N\<close>, and the invariant \<open>N \<le> 9\<close> is preserved: assigning an
  array that satisfies the invariant to one that satisfies it (the same object or
  another) succeeds and yields an object with \<open>N \<le> 9\<close> and at most 9 elements, and
  every object of the store that satisfied the invariant still does. \<^verbatim>\<open>forEach\<close>,
  the only other operation, is \<^verbatim>\<open>const\<close>.
\<close>

theorem assign_preserves_inv:
  assumes "ValuesArray_inv (h this)" and "ValuesArray_inv (h other)"
  shows "\<exists>h'. operator_assign h this other = Inr (h', this) \<and>
     ValuesArray_inv (h' this) \<and> N (h' this) \<le> 9 \<and>
     length (contents (h' this)) \<le> 9 \<and>
     (\<forall>p. ValuesArray_inv (h p) \<longrightarrow> ValuesArray_inv (h' p))"
proof (cases "this = other")
  case True
  have "operator_assign h this other = Inr (h, this)"
    using True by (simp add: operator_assign_def)
  moreover have "length (contents (h this)) \<le> 9"
    using assms(1) inv_unat [of "h this"] by (simp add: length_contents capacity_def)
  ultimately show ?thesis
    using assms(1) by (simp add: ValuesArray_inv_def)
next
  case False
  from assms(1) have "has_storage (h this)"
    by (simp add: ValuesArray_inv_def)
  from operator_assign_distinct [OF False this assms(2)] obtain r where
    r: "operator_assign h this other = Inr (h(this := r), this)" "N r = N (h other)" "has_storage r"
    by blast
  have inv: "ValuesArray_inv r"
    using r(2,3) assms(2) by (simp add: ValuesArray_inv_def)
  then have "length (contents r) \<le> 9"
    using inv_unat [of r] by (simp add: length_contents capacity_def)
  with r(1) inv show ?thesis
    by (simp add: ValuesArray_inv_def)
qed

theorem assign_preserves_inv_witness:
  "ValuesArray_inv (demo_store 1) \<and> ValuesArray_inv (demo_store 0) \<and>
   (\<exists>h'. operator_assign demo_store 1 0 = Inr (h', 1) \<and>
     ValuesArray_inv (h' 1) \<and> N (h' 1) \<le> 9 \<and>
     length (contents (h' 1)) \<le> 9 \<and>
     (\<forall>p. ValuesArray_inv (demo_store p) \<longrightarrow> ValuesArray_inv (h' p)))"
proof -
  have h1: "ValuesArray_inv (demo_store 1)"
    by (simp add: ValuesArray_inv_def has_storage_def demo_store_def capacity_def)
  have h2: "ValuesArray_inv (demo_store 0)"
    by (simp add: ValuesArray_inv_def has_storage_def demo_store_def capacity_def)
  from assign_preserves_inv [OF h1 h2] h1 h2 show ?thesis
    by blast
qed



text \<open>
  C5. Self-assignment is the identity: assigning the object at an address to itself
  leaves the store, hence its count and every slot, unchanged, and the operator
  returns the address of that same object.
\<close>

theorem operator_assign_self: "operator_assign h a a = Inr (h, a)"
  by (simp add: operator_assign_def)


section \<open>Iteration over a ValuesArray\<close>

text \<open>
  C6. For an array with \<open>N \<le> 9\<close>, \<^verbatim>\<open>forEach\<close> calls the callback exactly \<open>N\<close>
  times, on slot 0 up to slot \<open>N - 1\<close> in increasing order: its effect is that of
  folding the callback over the first \<open>N\<close> slots, and a callback that logs its
  argument produces exactly those \<open>N\<close> values. No slot at index \<open>N\<close> or beyond is
  read: an array that agrees on the count and on the first \<open>N\<close> slots gives the
  same result.
\<close>

theorem forEach_visits_first_N:
  assumes "ValuesArray_inv a"
  shows "forEach func a s = Inr (fold func (contents a) s) \<and>
     forEach record_call a [] = Inr (contents a) \<and>
     length (contents a) = unat (N a) \<and>
     (\<forall>k. k < unat (N a) \<longrightarrow> contents a ! k = values a ! k) \<and>
     (\<forall>b. ValuesArray_inv b \<and> N b = N a \<and> (\<forall>k. k < unat (N a) \<longrightarrow> values b ! k = values a ! k)
        \<longrightarrow> forEach func b s = forEach func a s)"
proof -
  have 1: "forEach func a s = Inr (fold func (contents a) s)"
    using assms by (rule forEach_contents)
  have 2: "forEach record_call a [] = Inr (contents a)"
    using assms by (simp add: forEach_contents fold_record_call)
  have 3: "length (contents a) = unat (N a)"
    using assms by (rule length_contents)
  have 4: "\<forall>k. k < unat (N a) \<longrightarrow> contents a ! k = values a ! k"
    by (simp add: contents_def)
  have 5: "forEach func b s = forEach func a s"
    if b: "ValuesArray_inv b \<and> N b = N a \<and> (\<forall>k. k < unat (N a) \<longrightarrow> values b ! k = values a ! k)" for b
  proof -
    from b have "has_storage b" by (simp add: ValuesArray_inv_def)
    with b assms have "contents b = contents a"
      by (intro contents_cong) simp_all
    with b assms show ?thesis by (simp add: forEach_contents)
  qed
  from 1 2 3 4 5 show ?thesis by blast
qed

theorem forEach_visits_first_N_witness:
  "ValuesArray_inv (demo_store 1) \<and>
   forEach record_call (demo_store 1) [] = Inr [10, 20] \<and>
   contents (demo_store 1) = [10, 20] \<and>
   length (contents (demo_store 1)) = unat (N (demo_store 1))"
proof -
  have h: "ValuesArray_inv (demo_store 1)"
    by (simp add: ValuesArray_inv_def has_storage_def demo_store_def capacity_def)
  have c: "contents (demo_store 1) = [10, 20]"
    by (simp add: contents_def demo_store_def)
  from forEach_visits_first_N [OF h, of record_call "[]"] h c show ?thesis
    by (simp add: record_call_def)
qed


section \<open>Staleness of the telemetry snapshot\<close>

lemma past_lifespan:
  fixes l :: ulong
  assumes "l + 1 \<noteq> 0"
  shows "\<not> l + 1 < l"
proof -
  have "unat l < 2 ^ 32"
    using unsigned_less [of l, where ?'a = nat] by simp
  moreover have "unat l + 1 \<noteq> 2 ^ 32"
  proof
    assume "unat l + 1 = 2 ^ 32"
    then have "of_nat (unat l + 1) = (of_nat (2 ^ 32) :: ulong)" by (rule arg_cong)
    then have "l + 1 = 0" by simp
    with assms show False by simp
  qed
  ultimately have "unat l + unat (1 :: ulong) < 2 ^ LENGTH(32)"
    by simp
  then have "unat (l + 1) = unat l + unat (1 :: ulong)"
    by (simp only: unat_add_lem)
  then show ?thesis
    by (simp add: word_less_nat_alt)
qed

lemma within_lifespan:
  fixes l :: ulong
  assumes "0 < l"
  shows "l - 1 < l"
proof -
  from assms have "1 \<le> l"
    by (simp add: word_le_nat_alt word_less_nat_alt)
  then have "unat (l - 1) = unat l - unat (1 :: ulong)"
    by (rule unat_sub)
  moreover from assms have "0 < unat l"
    by (simp add: word_less_nat_alt)
  ultimately show ?thesis
    by (simp add: word_less_nat_alt)
qed

text \<open>
  C3. For a stored snapshot whose status says detected and whose timestamp is \<open>t\<close>, a
  detection query at \<open>t + dataLifespan + 1\<close> reports not detected and a query at
  \<open>t + dataLifespan - 1\<close> reports detected; after a successful telemetry decode at
  time \<open>now\<close> the snapshot is fresh, and a query at that time reports what the new
  status says. The clock is 32 bits wide and the times wrap around; the lifespan
  is neither 0 nor the largest \<^verbatim>\<open>unsigned long\<close>, as is the case for the value 500
  that the header gives it and for which it declares no setter.
\<close>

theorem staleness_of_detection:
  assumes "flagged (status (sData d))" and "0 < dataLifespan d" and "dataLifespan d + 1 \<noteq> 0"
  shows "\<not> detection_query flagged (timestamp (sData d) + dataLifespan d + 1) d \<and>
     detection_query flagged (timestamp (sData d) + dataLifespan d - 1) d \<and>
     isDataValid now (store_telemetry now decoded d) \<and>
     detection_query flagged now (store_telemetry now decoded d) = flagged (status decoded)"
proof -
  have "\<not> isDataValid (timestamp (sData d) + dataLifespan d + 1) d"
    using past_lifespan [OF assms(3)] by (simp add: isDataValid_def)
  moreover have "isDataValid (timestamp (sData d) + dataLifespan d - 1) d"
    using within_lifespan [OF assms(2)] by (simp add: isDataValid_def)
  moreover have "isDataValid now (store_telemetry now decoded d)"
    using assms(2) by (simp add: isDataValid_def store_telemetry_def)
  ultimately show ?thesis
    using assms(1) by (simp add: detection_query_def store_telemetry_def)
qed

theorem staleness_of_detection_witness:
  "status_nonzero (status (sData demo_device)) \<and> 0 < dataLifespan demo_device \<and>
   dataLifespan demo_device + 1 \<noteq> 0 \<and>
   timestamp (sData demo_device) + dataLifespan demo_device + 1 = 205 \<and>
   \<not> detection_query status_nonzero 205 demo_device \<and>
   timestamp (sData demo_device) + dataLifespan demo_device - 1 = 203 \<and>
   detection_query status_nonzero 203 demo_device \<and>
   isDataValid 205 (store_telemetry 205 (sData demo_device) demo_device)"
proof -
  have h1: "status_nonzero (status (sData demo_device))"
    by (simp add: status_nonzero_def demo_device_def member_defaults_def)
  have h2: "0 < dataLifespan demo_device"
    by (simp add: demo_device_def member_defaults_def)
  have h3: "dataLifespan demo_device + 1 \<noteq> 0"
    by (simp add: demo_device_def member_defaults_def)
  have t1: "timestamp (sData demo_device) + dataLifespan demo_device + 1 = 205"
    by (simp add: demo_device_def member_defaults_def)
  have t2: "timestamp (sData demo_device) + dataLifespan demo_device - 1 = 203"
    by (simp add: demo_device_def member_defaults_def)
  from staleness_of_detection [where flagged = status_nonzero and d = demo_device and now = 205
      and decoded = "sData demo_device", OF h1 h2 h3] h1 h2 h3 t1 t2
  show ?thesis
    by simp
qed

section \<open>Defaults of the device object\<close>

lemma await_ack_timeout:
  assumes "\<forall>p \<in> set polls. \<not> matching_ack acks req (snd p)"
    and "\<exists>p \<in> set polls. tmo < fst p - start"
  shows "await_ack acks tmo start req polls = Some Timeout"
  using assms
proof (induction polls)
  case Nil
  then show ?case by simp
next
  case (Cons p polls)
  obtain now ev where p: "p = (now, ev)" by (cases p)
  show ?case
  proof (cases "tmo < now - start")
    case True
    with p show ?thesis by simp
  next
    case False
    with Cons.prems p have "\<exists>q \<in> set polls. tmo < fst q - start" by auto
    moreover from Cons.prems have "\<forall>q \<in> set polls. \<not> matching_ack acks req (snd q)" by simp
    ultimately have "await_ack acks tmo start req polls = Some Timeout" by (rule Cons.IH [rotated])
    with False Cons.prems p show ?thesis by simp
  qed
qed

lemma await_ack_pending:
  assumes "\<forall>p \<in> set polls. \<not> matching_ack acks req (snd p) \<and> fst p - start \<le> tmo"
  shows "await_ack acks tmo start req polls = None"
  using assms
proof (induction polls)
  case Nil
  then show ?case by simp
next
  case (Cons p polls)
  obtain now ev where p: "p = (now, ev)" by (cases p)
  with Cons show ?case by (simp add: not_less)
qed

text \<open>
  C7. The header initialises \<^verbatim>\<open>timeout\<close> to 2000. With that value, a wait for
  an acknowledgement during which no matching acknowledgement is seen ends with
  Timeout, which \<^verbatim>\<open>sendCommand\<close> returns as false, at the first poll at which the
  elapsed wait exceeds 2000 ms; as long as the elapsed wait stays within 2000 ms
  the wait goes on.
\<close>

theorem default_timeout_ends_wait:
  assumes "\<forall>p \<in> set polls. \<not> matching_ack acks req (snd p)"
    and "\<exists>p \<in> set polls. 2000 < fst p - start"
  shows "timeout (member_defaults raw) = 2000 \<and>
     await_ack acks (timeout (member_defaults raw)) start req polls = Some Timeout \<and>
     \<not> WaitResult_bool Timeout \<and>
     (\<forall>k. (\<forall>p \<in> set (take k polls). fst p - start \<le> 2000) \<longrightarrow>
        await_ack acks (timeout (member_defaults raw)) start req (take k polls) = None)"
proof -
  have t: "timeout (member_defaults raw) = 2000"
    by (simp add: member_defaults_def)
  have "await_ack acks 2000 start req polls = Some Timeout"
    using assms by (rule await_ack_timeout)
  moreover have "await_ack acks 2000 start req (take k polls) = None"
    if "\<forall>p \<in> set (take k polls). fst p - start \<le> 2000" for k
  proof (rule await_ack_pending)
    show "\<forall>p \<in> set (take k polls). \<not> matching_ack acks req (snd p) \<and> fst p - start \<le> 2000"
      using that assms(1) by (auto dest: in_set_takeD)
  qed
  ultimately show ?thesis
    using t by simp
qed

theorem default_timeout_ends_wait_witness:
  "timeout (member_defaults demo_device) = 2000 \<and>
   await_ack ack_bit (timeout (member_defaults demo_device)) 4294967000 255 demo_polls = Some Timeout \<and>
   await_ack ack_bit (timeout (member_defaults demo_device)) 4294967000 255 (take 4 demo_polls) = None"
proof -
  have h1: "\<forall>p \<in> set demo_polls. \<not> matching_ack ack_bit 255 (snd p)"
    by (simp add: demo_polls_def ack_bit_def)
  have h2: "\<exists>p \<in> set demo_polls. 2000 < fst p - 4294967000"
    by (simp add: demo_polls_def)
  have h3: "\<forall>p \<in> set (take 4 demo_polls). fst p - 4294967000 \<le> 2000"
    by (simp add: demo_polls_def)
  from default_timeout_ends_wait [OF h1 h2, of demo_device] h3 show ?thesis
    by blast
qed

text \<open>
  C8. The header initialises \<^verbatim>\<open>dataLifespan\<close>, the duration after which the
  snapshot counts as stale, to 500 (milliseconds).
\<close>

theorem default_dataLifespan: "dataLifespan (member_defaults raw) = 500"
  by (simp add: member_defaults_def)

text \<open>
  C9. A value of type \<^verbatim>\<open>Response\<close>, the result type of \<^verbatim>\<open>check()\<close>, is one of
  the three distinct values \<^verbatim>\<open>FAIL\<close>, \<^verbatim>\<open>ACK\<close> and \<^verbatim>\<open>DATA\<close>; \<^verbatim>\<open>FAIL\<close> is 0, \<^verbatim>\<open>ACK\<close> is 1 and
  \<^verbatim>\<open>DATA\<close> is 2. Converted to \<^verbatim>\<open>bool\<close>, the result is false exactly when it is
  \<^verbatim>\<open>FAIL\<close>, and true for \<^verbatim>\<open>ACK\<close> and for \<^verbatim>\<open>DATA\<close>.
\<close>

theorem Response_encoding:
  "(r = FAIL \<or> r = ACK \<or> r = DATA) \<and> distinct [FAIL, ACK, DATA] \<and>
   Response_value FAIL = 0 \<and> Response_value ACK = 1 \<and> Response_value DATA = 2 \<and>
   Response_bool ACK \<and> Response_bool DATA \<and>
   (\<not> Response_bool r) = (r = FAIL)"
  by (cases r) (simp_all add: Response_bool_def)

text \<open>
  C10. The MAC address stored in the device object is an array of exactly 6 bytes,
  and \<^verbatim>\<open>getMAC\<close> gives access to that array.
\<close>

theorem MAC_is_six_bytes:
  "length (Rep_MAC_array (MAC d)) = 6 \<and> getMAC d = MAC d \<and> length (Rep_MAC_array (getMAC d)) = 6"
  using Rep_MAC_array [of "MAC d"] by (simp add: getMAC_def)

end
